theory Spec2Isabelle
  imports Complex_Main "HOL-Library.AList"
begin

section \<open>Data model (types.ts)\<close>

text \<open>
  JavaScript numbers are modelled as reals: every property below is about the structure
  of the graph, the history stacks and the camera algebra, not about rounding.
  A JavaScript object used as a dictionary (\<open>Record<string, T>\<close>) is an association
  list in insertion order, which is the order \<open>Object.values\<close>, \<open>Object.entries\<close> and
  the spread operator follow for keys that are not array indices (the ids here are
  \<open>node-...\<close> and \<open>edge-...\<close>). \<open>{...prev, [k]: v}\<close> is \<open>AList.update k v prev\<close>
  (overwrite in place, or append), the own property \<open>prev[k]\<close> is \<open>map_of prev k\<close>, and the
  rest pattern \<open>const {[k]: _, ...rest} = prev\<close> is \<open>AList.delete k prev\<close>.
\<close>

record Node =
  node_id :: string
  node_x :: real
  node_y :: real
  width :: real
  height :: real
  title :: string
  description :: string
  collapsed :: bool
  titleColor :: "string option"

record Edge =
  edge_id :: string
  edge_from :: string
  edge_to :: string
  edge_label :: "string option"

type_synonym NodeMap = "(string \<times> Node) list"
type_synonym EdgeMap = "(string \<times> Edge) list"

section \<open>Graph store: useNodes.ts\<close>

text \<open>
  \<open>Partial<Omit<Node, 'id'>>\<close>: every field but the id may be present. The optional
  \<open>titleColor\<close> may also be present with the value \<open>undefined\<close> (as \<open>handlePaste\<close> passes
  it), which the spread writes over the old colour.
\<close>

record NodeUpdates =
  upd_x :: "real option"
  upd_y :: "real option"
  upd_width :: "real option"
  upd_height :: "real option"
  upd_title :: "string option"
  upd_description :: "string option"
  upd_collapsed :: "bool option"
  upd_titleColor :: "string option option"

definition noUpdates :: NodeUpdates where
  "noUpdates = \<lparr> upd_x = None, upd_y = None, upd_width = None, upd_height = None,
     upd_title = None, upd_description = None, upd_collapsed = None, upd_titleColor = None \<rparr>"

text \<open>The object spread \<open>{ ...prev[id], ...updates }\<close>.\<close>

definition spreadNode :: "Node \<Rightarrow> NodeUpdates \<Rightarrow> Node" where
  "spreadNode n u =
     n \<lparr> node_x := (case upd_x u of None \<Rightarrow> node_x n | Some v \<Rightarrow> v),
         node_y := (case upd_y u of None \<Rightarrow> node_y n | Some v \<Rightarrow> v),
         width := (case upd_width u of None \<Rightarrow> width n | Some v \<Rightarrow> v),
         height := (case upd_height u of None \<Rightarrow> height n | Some v \<Rightarrow> v),
         title := (case upd_title u of None \<Rightarrow> title n | Some v \<Rightarrow> v),
         description := (case upd_description u of None \<Rightarrow> description n | Some v \<Rightarrow> v),
         collapsed := (case upd_collapsed u of None \<Rightarrow> collapsed n | Some v \<Rightarrow> v),
         titleColor := (case upd_titleColor u of None \<Rightarrow> titleColor n | Some v \<Rightarrow> v) \<rparr>"

text \<open>The development nodes \<open>initialNodes\<close> of useNodes.ts, used below as concrete inputs.\<close>

definition initialNodes :: NodeMap where
  "initialNodes =
     [(''node-1'', \<lparr> node_id = ''node-1'', node_x = 100, node_y = 100, width = 240, height = 160,
         title = ''Main Idea'',
         description = ''This is a sample node to verify the visual design matches the Catppuccin theme.'',
         collapsed = False, titleColor = None \<rparr>),
      (''node-2'', \<lparr> node_id = ''node-2'', node_x = 400, node_y = 120, width = 200, height = 120,
         title = ''Related Concept'', description = ''Another thought that connects to the main idea.'', collapsed = False,
         titleColor = None \<rparr>),
      (''node-3'', \<lparr> node_id = ''node-3'', node_x = 150, node_y = 320, width = 180, height = 80,
         title = ''Collapsed Node'', description = ''This description is hidden when collapsed.'', collapsed = True,
         titleColor = None \<rparr>)]"

text \<open>
  \<open>prev[id]\<close> follows the prototype chain. The node and edge maps are plain objects, so a
  key that is not an own property is still found when it names a property of
  \<open>Object.prototype\<close>; every one of those values is truthy (eleven functions, and the
  prototype object itself under \<open>__proto__\<close>).
\<close>

definition objectPrototypeKeys :: "string list" where
  "objectPrototypeKeys =
     [''constructor'', ''__defineGetter__'', ''__defineSetter__'', ''hasOwnProperty'',
      ''__lookupGetter__'', ''__lookupSetter__'', ''isPrototypeOf'', ''propertyIsEnumerable'',
      ''toString'', ''valueOf'', ''__proto__'', ''toLocaleString'']"

datatype 'a JsLookup = Own 'a | Inherited | Absent

definition jsLookup :: "(string \<times> 'a) list \<Rightarrow> string \<Rightarrow> 'a JsLookup" where
  "jsLookup obj k =
     (case map_of obj k of
        Some v \<Rightarrow> Own v
      | None \<Rightarrow> if k \<in> set objectPrototypeKeys then Inherited else Absent)"

text \<open>
  The spread of an inherited value copies nothing (a function and \<open>Object.prototype\<close> have
  no enumerable own properties), so \<open>{ ...prev[id], ...updates }\<close> is then an object that
  holds only the fields of \<open>updates\<close>: it has no id and is not a \<open>Node\<close>.
  \<open>MalformedEntry prev k fields\<close> is the store that results: \<open>prev\<close> with one more entry,
  under the key \<open>k\<close>, holding exactly \<open>fields\<close>.
\<close>

datatype StoreError = MalformedEntry NodeMap string NodeUpdates

definition updateNode :: "string \<Rightarrow> NodeUpdates \<Rightarrow> NodeMap \<Rightarrow> StoreError + NodeMap" where
  "updateNode i updates prev =
     (case jsLookup prev i of
        Absent \<Rightarrow> Inr prev
      | Own n \<Rightarrow> Inr (AList.update i (spreadNode n updates) prev)
      | Inherited \<Rightarrow> Inl (MalformedEntry prev i updates))"

definition moveNode :: "string \<Rightarrow> real \<Rightarrow> real \<Rightarrow> NodeMap \<Rightarrow> StoreError + NodeMap" where
  "moveNode i px py prev = updateNode i (noUpdates \<lparr> upd_x := Some px, upd_y := Some py \<rparr>) prev"

text \<open>
  \<open>toggleCollapse\<close> has the same guard; for an inherited value \<open>!prev[id].collapsed\<close> is
  \<open>!undefined\<close>, so the entry it stores holds \<open>collapsed: true\<close> alone.
\<close>

definition toggleCollapse :: "string \<Rightarrow> NodeMap \<Rightarrow> StoreError + NodeMap" where
  "toggleCollapse i prev =
     (case jsLookup prev i of
        Absent \<Rightarrow> Inr prev
      | Own n \<Rightarrow> Inr (AList.update i (n \<lparr> collapsed := \<not> collapsed n \<rparr>) prev)
      | Inherited \<Rightarrow> Inl (MalformedEntry prev i (noUpdates \<lparr> upd_collapsed := Some True \<rparr>)))"

definition deleteNode :: "string \<Rightarrow> NodeMap \<Rightarrow> NodeMap" where
  "deleteNode i prev = AList.delete i prev"

section \<open>Graph store: useEdges.ts\<close>

text \<open>The test of \<open>createEdge\<close>'s \<open>some\<close>: the edge joins the two ids, in either direction.\<close>

definition connects :: "string \<Rightarrow> string \<Rightarrow> Edge \<Rightarrow> bool" where
  "connects a b e =
     ((edge_from e = a \<and> edge_to e = b) \<or> (edge_from e = b \<and> edge_to e = a))"

text \<open>
  \<open>generateId\<close> reads the clock and the random generator; the id it returns is the
  parameter \<open>newId\<close>. The result is the returned value (\<open>None\<close> for \<open>null\<close>) and the
  edge map after the call.
\<close>

definition createEdge :: "string \<Rightarrow> string \<Rightarrow> string \<Rightarrow> EdgeMap \<Rightarrow> Edge option \<times> EdgeMap" where
  "createEdge newId fromNodeId toNodeId es =
     (if fromNodeId = toNodeId then (None, es)
      else if list_ex (connects fromNodeId toNodeId) (map snd es) then (None, es)
      else
        let newEdge = \<lparr> edge_id = newId, edge_from = fromNodeId, edge_to = toNodeId,
                         edge_label = None \<rparr>
        in (Some newEdge, AList.update newId newEdge es))"

definition deleteEdge :: "string \<Rightarrow> EdgeMap \<Rightarrow> EdgeMap" where
  "deleteEdge i prev = AList.delete i prev"

text \<open>The loop of \<open>deleteEdgesForNode\<close>: \<open>filtered[id] = edge\<close> for every entry that passes.\<close>

fun deleteEdgesLoop :: "string \<Rightarrow> (string \<times> Edge) list \<Rightarrow> EdgeMap \<Rightarrow> EdgeMap" where
  "deleteEdgesLoop nodeId [] filtered = filtered"
| "deleteEdgesLoop nodeId ((i, e) # rest) filtered =
     deleteEdgesLoop nodeId rest
       (if edge_from e \<noteq> nodeId \<and> edge_to e \<noteq> nodeId then AList.update i e filtered
        else filtered)"

definition deleteEdgesForNode :: "string \<Rightarrow> EdgeMap \<Rightarrow> EdgeMap" where
  "deleteEdgesForNode nodeId prev = deleteEdgesLoop nodeId prev []"

text \<open>
  A graph built through \<open>createEdge\<close>: a sequence of calls (generated id, from, to), each
  reading the edge map the call before it left (the component calls \<open>createEdge\<close> once per
  event).
\<close>

fun createEdges :: "(string \<times> string \<times> string) list \<Rightarrow> EdgeMap \<Rightarrow> EdgeMap" where
  "createEdges [] es = es"
| "createEdges ((newId, a, b) # calls) es = createEdges calls (snd (createEdge newId a b es))"

text \<open>No two entries of the edge map join the same unordered pair of node ids.\<close>

definition noDuplicatePairs :: "EdgeMap \<Rightarrow> bool" where
  "noDuplicatePairs es =
     (\<forall>k1 k2 e1 e2. k1 \<noteq> k2 \<and> map_of es k1 = Some e1 \<and> map_of es k2 = Some e2
        \<longrightarrow> \<not> connects (edge_from e1) (edge_to e1) e2)"

section \<open>History manager: useHistory.ts\<close>

record HistoryState =
  hs_nodes :: NodeMap
  hs_edges :: EdgeMap

text \<open>
  The hook's state: the two stacks (the newest entry last) and \<open>isUndoingRef.current\<close>.
\<close>

record History =
  past :: "HistoryState list"
  future :: "HistoryState list"
  isUndoing :: bool

definition emptyHistory :: History where
  "emptyHistory = \<lparr> past = [], future = [], isUndoing = False \<rparr>"

definition DEFAULT_MAX_SIZE :: int where
  "DEFAULT_MAX_SIZE = 50"

text \<open>
  \<open>maxSize\<close> is an integer. \<open>xs.slice(start)\<close> for an integer \<open>start\<close>: a negative start counts from the end and
  is clamped at the front; a start that is not negative (\<open>-0\<close> included) counts from the
  front and is clamped at the end.
\<close>

definition sliceFrom :: "int \<Rightarrow> 'a list \<Rightarrow> 'a list" where
  "sliceFrom start xs =
     (if start < 0 then drop (nat (int (length xs) + start)) xs else drop (nat start) xs)"

definition pushState :: "int \<Rightarrow> NodeMap \<Rightarrow> EdgeMap \<Rightarrow> History \<Rightarrow> History" where
  "pushState maxSize ns es h =
     (if isUndoing h then h
      else
        let newPast = past h @ [\<lparr> hs_nodes = ns, hs_edges = es \<rparr>]
        in h \<lparr> past := (if int (length newPast) > maxSize then sliceFrom (- maxSize) newPast
                        else newPast),
               future := [] \<rparr>)"

text \<open>
  \<open>undo\<close> and \<open>redo\<close> return the flag, the hook's state, and the graph after the two
  setters ran (the current graph when nothing is restored). \<open>isUndoingRef\<close> is raised
  and lowered again inside the call, so it is false in the state returned.
\<close>

definition undo :: "NodeMap \<Rightarrow> EdgeMap \<Rightarrow> History \<Rightarrow> bool \<times> History \<times> HistoryState" where
  "undo currentNodes currentEdges h =
     (if length (past h) = 0 then
        (False, h, \<lparr> hs_nodes = currentNodes, hs_edges = currentEdges \<rparr>)
      else
        let previous = last (past h);
            newPast = butlast (past h)
        in (True,
            h \<lparr> future := future h @ [\<lparr> hs_nodes = currentNodes, hs_edges = currentEdges \<rparr>],
                past := newPast, isUndoing := False \<rparr>,
            \<lparr> hs_nodes = hs_nodes previous, hs_edges = hs_edges previous \<rparr>))"

definition redo :: "NodeMap \<Rightarrow> EdgeMap \<Rightarrow> History \<Rightarrow> bool \<times> History \<times> HistoryState" where
  "redo currentNodes currentEdges h =
     (if length (future h) = 0 then
        (False, h, \<lparr> hs_nodes = currentNodes, hs_edges = currentEdges \<rparr>)
      else
        let next = last (future h);
            newFuture = butlast (future h)
        in (True,
            h \<lparr> past := past h @ [\<lparr> hs_nodes = currentNodes, hs_edges = currentEdges \<rparr>],
                future := newFuture, isUndoing := False \<rparr>,
            \<lparr> hs_nodes = hs_nodes next, hs_edges = hs_edges next \<rparr>))"

definition clearHistory :: "History \<Rightarrow> History" where
  "clearHistory h = h \<lparr> past := [], future := [] \<rparr>"

text \<open>
  A run of mutating actions, each preceded by one \<open>pushState\<close> of the graph it is about
  to change; an action is any function on the graph.
\<close>

fun runActions ::
  "int \<Rightarrow> (HistoryState \<Rightarrow> HistoryState) list \<Rightarrow> History \<times> HistoryState \<Rightarrow> History \<times> HistoryState"
where
  "runActions maxSize [] s = s"
| "runActions maxSize (act # acts) s =
     runActions maxSize acts
       (pushState maxSize (hs_nodes (snd s)) (hs_edges (snd s)) (fst s), act (snd s))"

text \<open>\<open>undo\<close> and \<open>redo\<close> called \<open>n\<close> times on the current graph; the flags returned, in order.\<close>

fun undoTimes :: "nat \<Rightarrow> History \<times> HistoryState \<Rightarrow> bool list \<times> History \<times> HistoryState" where
  "undoTimes 0 s = ([], s)"
| "undoTimes (Suc n) s =
     (case undo (hs_nodes (snd s)) (hs_edges (snd s)) (fst s) of
        (ok, s') \<Rightarrow> (case undoTimes n s' of (oks, s'') \<Rightarrow> (ok # oks, s'')))"

fun redoTimes :: "nat \<Rightarrow> History \<times> HistoryState \<Rightarrow> bool list \<times> History \<times> HistoryState" where
  "redoTimes 0 s = ([], s)"
| "redoTimes (Suc n) s =
     (case redo (hs_nodes (snd s)) (hs_edges (snd s)) (fst s) of
        (ok, s') \<Rightarrow> (case redoTimes n s' of (oks, s'') \<Rightarrow> (ok # oks, s'')))"

text \<open>The graphs a run passes to \<open>pushState\<close>, and a sequence of pushes on its own.\<close>

fun preStates :: "(HistoryState \<Rightarrow> HistoryState) list \<Rightarrow> HistoryState \<Rightarrow> HistoryState list" where
  "preStates [] g = []"
| "preStates (act # acts) g = g # preStates acts (act g)"

fun pushStates :: "int \<Rightarrow> HistoryState list \<Rightarrow> History \<Rightarrow> History" where
  "pushStates maxSize [] h = h"
| "pushStates maxSize (g # gs) h = pushStates maxSize gs (pushState maxSize (hs_nodes g) (hs_edges g) h)"

section \<open>Geometry: utils/geometry.ts\<close>

datatype HandlePosition = Top | Right | Bottom | Left












section \<open>Camera: useCanvas.ts\<close>

record Camera =
  cam_x :: real
  cam_y :: real
  cam_scale :: real

record UseCanvasOptions =
  minScale :: real
  maxScale :: real
  scaleStep :: real

definition DEFAULT_OPTIONS :: UseCanvasOptions where
  "DEFAULT_OPTIONS = \<lparr> minScale = 1 / 10, maxScale = 3, scaleStep = 11 / 10 \<rparr>"

definition screenToCanvas :: "Camera \<Rightarrow> real \<Rightarrow> real \<Rightarrow> real \<times> real" where
  "screenToCanvas camera screenX screenY =
     ((screenX - cam_x camera) / cam_scale camera, (screenY - cam_y camera) / cam_scale camera)"

definition canvasToScreen :: "Camera \<Rightarrow> real \<Rightarrow> real \<Rightarrow> real \<times> real" where
  "canvasToScreen camera canvasX canvasY =
     (canvasX * cam_scale camera + cam_x camera, canvasY * cam_scale camera + cam_y camera)"

text \<open>
  \<open>handleWheel\<close>: the wheel event is its \<open>deltaY\<close> and the stage's pointer position
  (\<open>None\<close> when there is no stage or no pointer, where the handler returns at once).
\<close>

definition handleWheel ::
  "UseCanvasOptions \<Rightarrow> (real \<times> real) option \<Rightarrow> real \<Rightarrow> Camera \<Rightarrow> Camera"
where
  "handleWheel opts pointer deltaY camera =
     (case pointer of
        None \<Rightarrow> camera
      | Some (pointerX, pointerY) \<Rightarrow>
          let direction = (if deltaY < 0 then 1 else - 1 :: int);
              newScale = (if direction > 0
                          then min (cam_scale camera * scaleStep opts) (maxScale opts)
                          else max (cam_scale camera / scaleStep opts) (minScale opts));
              mousePointToX = (pointerX - cam_x camera) / cam_scale camera;
              mousePointToY = (pointerY - cam_y camera) / cam_scale camera
          in \<lparr> cam_x = pointerX - mousePointToX * newScale,
               cam_y = pointerY - mousePointToY * newScale,
               cam_scale = newScale \<rparr>)"

text \<open>The cameras a sequence of wheel events produces, one after each event.\<close>

fun wheelSteps ::
  "UseCanvasOptions \<Rightarrow> ((real \<times> real) option \<times> real) list \<Rightarrow> Camera \<Rightarrow> Camera list"
where
  "wheelSteps opts [] camera = []"
| "wheelSteps opts ((pointer, deltaY) # evs) camera =
     handleWheel opts pointer deltaY camera
       # wheelSteps opts evs (handleWheel opts pointer deltaY camera)"

section \<open>Interaction controller: components/Canvas.tsx\<close>

datatype EditField = TitleField | DescriptionField | LabelField

record EditingState =
  ed_nodeId :: "string option"
  ed_edgeId :: "string option"
  ed_field :: EditField

record ConnectionDragState =
  fromNodeId :: string
  fromPosition :: HandlePosition
  startX :: real
  startY :: real
  currentX :: real
  currentY :: real
  snappedNodeId :: "string option"
  snappedPosition :: "HandlePosition option"
  snappedX :: "real option"
  snappedY :: "real option"

text \<open>
  Each handler is a function from the component's state when the event arrives to the state
  after it. The values a handler closes over are those of the latest render, which is the
  state the event finds; the functional updates inside one handler
  (\<open>setNodes(prev => ...)\<close>) compose in statement order; and the mutable ref is read and
  written in statement order. The handlers are called with the ids of rendered nodes; for the
  ids \<open>generateId\<close> makes (\<open>node-...\<close>), which name no prototype property, their guards
  \<open>nodes[id]\<close> and \<open>dragStartPositions.current[id]\<close> are own-property lookups, and are
  modelled so.

  The component's state: the stores of the hooks it composes (nodes, edges, history with
  the default maximum, camera with the default options, the dirty flag of useProject) and
  its own. A \<open>Set<string>\<close> is the list of its members in insertion order, the order
  \<open>forEach\<close> visits them; its \<open>size\<close> is the length of the list.
  \<open>dragStartPositions\<close> is the mutable ref of that name.
\<close>

record Canvas =
  c_nodes :: NodeMap
  c_edges :: EdgeMap
  c_history :: History
  c_camera :: Camera
  isDirty :: bool
  selectedNodeIds :: "string list"
  selectedEdgeId :: "string option"
  editing :: "EditingState option"
  connectionDrag :: "ConnectionDragState option"
  draggingNodes :: "(string \<times> real \<times> real) list"
  dragStartPositions :: "(string \<times> real \<times> real) list"

text \<open>
  A string or null in a condition, and \<open>s || null\<close>: null, undefined and the empty string
  are falsy.
\<close>

definition orNull :: "string option \<Rightarrow> string option" where
  "orNull s = (case s of None \<Rightarrow> None | Some i \<Rightarrow> if i = [] then None else Some i)"

definition saveStateForUndo :: "Canvas \<Rightarrow> Canvas" where
  "saveStateForUndo c =
     c \<lparr> c_history := pushState DEFAULT_MAX_SIZE (c_nodes c) (c_edges c) (c_history c) \<rparr>"

definition markDirty :: "Canvas \<Rightarrow> Canvas" where
  "markDirty c = c \<lparr> isDirty := True \<rparr>"

text \<open>
  \<open>handleKeyDown\<close> for a key event that is not one of the Ctrl/Cmd shortcuts, which return
  before this code: the Delete/Backspace branch and the Escape branch.
\<close>

definition handleKeyDown :: "string \<Rightarrow> Canvas \<Rightarrow> Canvas" where
  "handleKeyDown key c =
     (if key = ''Delete'' \<or> key = ''Backspace'' then
        (if editing c \<noteq> None then c
         else
           (case orNull (selectedEdgeId c) of
              Some edgeId \<Rightarrow>
                markDirty
                  ((saveStateForUndo c)
                     \<lparr> c_edges := deleteEdge edgeId (c_edges c), selectedEdgeId := None \<rparr>)
            | None \<Rightarrow>
                if length (selectedNodeIds c) > 0 then
                  markDirty
                    ((saveStateForUndo c)
                       \<lparr> c_nodes := foldl (\<lambda>prev nodeId. deleteNode nodeId prev) (c_nodes c)
                                     (selectedNodeIds c),
                         selectedNodeIds := [] \<rparr>)
                else c))
      else if key = ''Escape'' then
        c \<lparr> selectedNodeIds := [], selectedEdgeId := None, editing := None,
            connectionDrag := None \<rparr>
      else c)"



text \<open>
  \<open>handleNodeDragMove\<close>: the first move of a drag records the stored position of the
  dragged node, and of every selected node when the dragged node is one of several
  selected; every move sets the visual positions.
\<close>

definition handleNodeDragMove :: "string \<Rightarrow> real \<Rightarrow> real \<Rightarrow> Canvas \<Rightarrow> Canvas" where
  "handleNodeDragMove nodeId px py c =
     (case map_of (c_nodes c) nodeId of
        None \<Rightarrow> c
      | Some node \<Rightarrow>
          let multi = (nodeId \<in> set (selectedNodeIds c) \<and> length (selectedNodeIds c) > 1);
              starts =
                (if map_of (dragStartPositions c) nodeId = None then
                   let own = AList.update nodeId (node_x node, node_y node) (dragStartPositions c)
                   in if multi then
                        foldl (\<lambda>acc i.
                                 case map_of (c_nodes c) i of
                                   None \<Rightarrow> acc
                                 | Some n \<Rightarrow>
                                     if map_of acc i = None
                                     then AList.update i (node_x n, node_y n) acc else acc)
                          own (selectedNodeIds c)
                      else own
                 else dragStartPositions c);
              dragged = AList.update nodeId (px, py) (draggingNodes c);
              visual =
                (if multi then
                   (case map_of starts nodeId of
                      None \<Rightarrow> dragged
                    | Some startPos \<Rightarrow>
                        let offsetX = px - fst startPos;
                            offsetY = py - snd startPos
                        in foldl (\<lambda>acc i.
                                    if i \<noteq> nodeId then
                                      (case map_of starts i of
                                         None \<Rightarrow> acc
                                       | Some otherStartPos \<Rightarrow>
                                           AList.update i
                                             (fst otherStartPos + offsetX, snd otherStartPos + offsetY)
                                             acc)
                                    else acc)
                             dragged (selectedNodeIds c))
                 else dragged)
          in c \<lparr> dragStartPositions := starts, draggingNodes := visual \<rparr>)"

text \<open>
  \<open>handleNodeDragEnd\<close>, statement by statement: the offset is read from the start position
  of the dragged node; the visual positions and then the start positions of all selected
  nodes are deleted; the state is saved for undo; the dragged node is moved; and the loop
  over the other selected nodes reads \<open>dragStartPositions.current[id]\<close>, that is the ref as
  the deletions above left it. A \<open>moveNode\<close> that leaves a malformed entry ends the model
  of the handler with that store.
\<close>

definition handleNodeDragEnd :: "string \<Rightarrow> real \<Rightarrow> real \<Rightarrow> Canvas \<Rightarrow> StoreError + Canvas" where
  "handleNodeDragEnd nodeId px py c =
     (case map_of (c_nodes c) nodeId of
        None \<Rightarrow> Inr c
      | Some node \<Rightarrow>
          (case map_of (dragStartPositions c) nodeId of
             None \<Rightarrow> Inr c
           | Some startPos \<Rightarrow>
               let offsetX = px - fst startPos;
                   offsetY = py - snd startPos;
                   cleared = foldl (\<lambda>acc i. AList.delete i acc) (draggingNodes c)
                               (selectedNodeIds c);
                   starts = foldl (\<lambda>acc i. AList.delete i acc) (dragStartPositions c)
                              (selectedNodeIds c);
                   moved = moveNode nodeId px py (c_nodes c);
                   movedAll =
                     (if nodeId \<in> set (selectedNodeIds c) \<and> length (selectedNodeIds c) > 1 then
                        foldl (\<lambda>acc i.
                                 if i \<noteq> nodeId then
                                   (case map_of starts i of
                                      None \<Rightarrow> acc
                                    | Some otherStartPos \<Rightarrow>
                                        (case acc of
                                           Inl e \<Rightarrow> Inl e
                                         | Inr prev \<Rightarrow>
                                             moveNode i (fst otherStartPos + offsetX)
                                               (snd otherStartPos + offsetY) prev))
                                 else acc)
                          moved (selectedNodeIds c)
                      else moved)
               in (case movedAll of
                     Inl e \<Rightarrow> Inl e
                   | Inr ns \<Rightarrow>
                       Inr (markDirty
                              ((saveStateForUndo c)
                                 \<lparr> draggingNodes := cleared, dragStartPositions := starts,
                                   c_nodes := ns \<rparr>)))))"

text \<open>A canvas as the component starts: no selection, no gesture, the camera at the origin.\<close>

definition initialCanvas :: "NodeMap \<Rightarrow> EdgeMap \<Rightarrow> Canvas" where
  "initialCanvas ns es =
     \<lparr> c_nodes = ns, c_edges = es, c_history = emptyHistory,
       c_camera = \<lparr> cam_x = 0, cam_y = 0, cam_scale = 1 \<rparr>, isDirty = False,
       selectedNodeIds = [], selectedEdgeId = None, editing = None, connectionDrag = None,
       draggingNodes = [], dragStartPositions = [] \<rparr>"

definition handleNodeClick :: "string \<Rightarrow> bool \<Rightarrow> Canvas \<Rightarrow> Canvas" where
  "handleNodeClick nodeId isCtrlClick c =
     (if isCtrlClick then
        c \<lparr> selectedNodeIds :=
              (if nodeId \<in> set (selectedNodeIds c) then removeAll nodeId (selectedNodeIds c)
               else selectedNodeIds c @ [nodeId]),
            selectedEdgeId := None \<rparr>
      else c \<lparr> selectedNodeIds := [nodeId], selectedEdgeId := None \<rparr>)"




text \<open>
  Concrete inputs: the development nodes with one edge from node-2 to node-1, and the
  same canvas after a click on node-1 and a Ctrl-click on node-2.
\<close>

definition edge21 :: Edge where
  "edge21 = \<lparr> edge_id = ''edge-1'', edge_from = ''node-2'', edge_to = ''node-1'', edge_label = None \<rparr>"

definition sampleCanvas :: Canvas where
  "sampleCanvas = initialCanvas initialNodes [(''edge-1'', edge21)]"

definition twoSelected :: Canvas where
  "twoSelected = handleNodeClick ''node-2'' True (handleNodeClick ''node-1'' False sampleCanvas)"




text \<open>
  Concrete inputs for the history: a one-node graph, and an action that collapses or expands
  its node through \<open>toggleCollapse\<close> (a graph that \<open>toggleCollapse\<close> would leave malformed is
  left as it is; the node id \<open>n\<close> names no prototype property, so this does not arise).
\<close>

definition oneNode :: HistoryState where
  "oneNode =
     \<lparr> hs_nodes = [(''n'', \<lparr> node_id = ''n'', node_x = 0, node_y = 0, width = 220, height = 140,
          title = ''New Node'', description = [], collapsed = False, titleColor = None \<rparr>)],
       hs_edges = [] \<rparr>"

definition toggleAction :: "HistoryState \<Rightarrow> HistoryState" where
  "toggleAction g =
     (case toggleCollapse ''n'' (hs_nodes g) of
        Inl e \<Rightarrow> g
      | Inr ns \<Rightarrow> g \<lparr> hs_nodes := ns \<rparr>)"

section \<open>updateNode: frame, and ids that name prototype properties\<close>

lemma jsLookup_Own: "map_of m i = Some n \<Longrightarrow> jsLookup m i = Own n"
  by (simp add: jsLookup_def)

lemma updateNode_own:
  "map_of m i = Some n \<Longrightarrow> updateNode i u m = Inr (AList.update i (spreadNode n u) m)"
  by (simp add: updateNode_def jsLookup_def)

lemma updateNode_absent:
  "map_of m i = None \<Longrightarrow> i \<notin> set objectPrototypeKeys \<Longrightarrow> updateNode i u m = Inr m"
  by (simp add: updateNode_def jsLookup_def)

lemma updateNode_inherited:
  "map_of m i = None \<Longrightarrow> i \<in> set objectPrototypeKeys \<Longrightarrow>
     updateNode i u m = Inl (MalformedEntry m i u)"
  by (simp add: updateNode_def jsLookup_def)

lemma node_id_spreadNode: "node_id (spreadNode n u) = node_id n"
  by (simp add: spreadNode_def)

lemma map_of_updateNode_other:
  "updateNode i u m = Inr m' \<Longrightarrow> k \<noteq> i \<Longrightarrow> map_of m' k = map_of m k"
  by (auto simp: updateNode_def jsLookup_def update_conv' split: option.splits if_splits)

lemma keys_updateNode: "updateNode i u m = Inr m' \<Longrightarrow> map fst m' = map fst m"
proof (cases "map_of m i")
  case None
  assume "updateNode i u m = Inr m'"
  then show ?thesis using None by (auto simp: updateNode_def jsLookup_def split: if_splits)
next
  case (Some n)
  assume r: "updateNode i u m = Inr m'"
  from Some have k: "i \<in> fst ` set m" by (metis domI dom_map_of_conv_image_fst)
  from r Some have m': "m' = AList.update i (spreadNode n u) m" by (simp add: updateNode_own)
  show ?thesis unfolding m' using k by (simp add: update_keys)
qed

text \<open>
  What holds of \<open>updateNode\<close> for every map, id and field record: a call that leaves a
  well-formed map leaves every other node and the key order unchanged and keeps the id of
  the node it updates; an id that is neither a key of the map nor the name of a prototype
  property leaves the map unchanged; and the only other outcome is the malformed entry,
  for an absent id that names a prototype property.
\<close>

lemma updateNode_frame:
  "(\<forall>m'. updateNode i u m = Inr m' \<longrightarrow>
       (\<forall>k. k \<noteq> i \<longrightarrow> map_of m' k = map_of m k)
     \<and> map fst m' = map fst m
     \<and> (\<forall>n. map_of m i = Some n \<longrightarrow> (\<exists>n'. map_of m' i = Some n' \<and> node_id n' = node_id n))
     \<and> (map_of m i = None \<longrightarrow> m' = m))
   \<and> (map_of m i = None \<and> i \<notin> set objectPrototypeKeys \<longrightarrow> updateNode i u m = Inr m)
   \<and> (\<forall>e. updateNode i u m = Inl e \<longrightarrow>
         e = MalformedEntry m i u \<and> map_of m i = None \<and> i \<in> set objectPrototypeKeys)"
proof (intro conjI allI impI)
  fix m' k assume "updateNode i u m = Inr m'" "k \<noteq> i"
  then show "map_of m' k = map_of m k" by (rule map_of_updateNode_other)
next
  fix m' assume "updateNode i u m = Inr m'"
  then show "map fst m' = map fst m" by (rule keys_updateNode)
next
  fix m' n assume "updateNode i u m = Inr m'" "map_of m i = Some n"
  then show "\<exists>n'. map_of m' i = Some n' \<and> node_id n' = node_id n"
    by (auto simp: updateNode_own update_conv' node_id_spreadNode)
next
  fix m' assume "updateNode i u m = Inr m'" "map_of m i = None"
  then show "m' = m" by (auto simp: updateNode_def jsLookup_def split: if_splits)
next
  assume "map_of m i = None \<and> i \<notin> set objectPrototypeKeys"
  then show "updateNode i u m = Inr m" by (simp add: updateNode_absent)
next
  fix e assume e: "updateNode i u m = Inl e"
  then show "e = MalformedEntry m i u" "map_of m i = None" "i \<in> set objectPrototypeKeys"
    by (auto simp: updateNode_def jsLookup_def split: option.splits if_splits)
qed

text \<open>
  C10, evaluated on the code. \<open>toString\<close> is not a key of the development nodes, but
  \<open>prev['toString']\<close> is the function inherited from \<open>Object.prototype\<close>, so the guard
  \<open>if (!prev[id]) return prev\<close> does not return: the call stores a new entry under
  \<open>toString\<close> that holds only the title passed, instead of returning the map unchanged.
  An absent id that names no prototype property does leave the map unchanged (node-9).
\<close>

theorem updateNode_inherited_key_adds_entry:
  "map_of initialNodes ''toString'' = None
   \<and> updateNode ''toString'' (noUpdates \<lparr> upd_title := Some ''T'' \<rparr>) initialNodes
       = Inl (MalformedEntry initialNodes ''toString'' (noUpdates \<lparr> upd_title := Some ''T'' \<rparr>))
   \<and> updateNode ''toString'' (noUpdates \<lparr> upd_title := Some ''T'' \<rparr>) initialNodes
       \<noteq> Inr initialNodes
   \<and> updateNode ''node-9'' (noUpdates \<lparr> upd_title := Some ''T'' \<rparr>) initialNodes
       = Inr initialNodes"
  by (simp add: updateNode_def jsLookup_def objectPrototypeKeys_def initialNodes_def)

section \<open>Edge creation validity\<close>

lemma connects_sym: "connects (edge_from e1) (edge_to e1) e2 = connects (edge_from e2) (edge_to e2) e1"
  by (auto simp: connects_def)

lemma createEdge_self: "createEdge newId a a es = (None, es)"
  by (simp add: createEdge_def)

lemma createEdge_duplicate:
  assumes "map_of es k = Some e" and "connects a b e"
  shows "createEdge newId a b es = (None, es)"
proof -
  from assms(1) have "e \<in> set (map snd es)"
    by (metis image_eqI map_of_SomeD set_map snd_conv)
  with assms(2) have "list_ex (connects a b) (map snd es)"
    unfolding list_ex_iff by blast
  then show ?thesis by (simp add: createEdge_def)
qed


lemma createEdge_preserves_noDuplicatePairs:
  assumes inv: "noDuplicatePairs es"
  shows "noDuplicatePairs (snd (createEdge newId a b es))"
proof (cases "a = b \<or> list_ex (connects a b) (map snd es)")
  case True
  then show ?thesis using inv by (auto simp: createEdge_def)
next
  case False
  define ne where "ne = \<lparr> edge_id = newId, edge_from = a, edge_to = b, edge_label = None \<rparr>"
  have res: "snd (createEdge newId a b es) = AList.update newId ne es"
    using False by (simp add: createEdge_def ne_def Let_def)
  have fresh: "\<not> connects a b e" if "map_of es k = Some e" for k e
  proof -
    from that have "e \<in> set (map snd es)"
      by (metis image_eqI map_of_SomeD set_map snd_conv)
    with False show ?thesis unfolding list_ex_iff by blast
  qed
  have ne_ft: "edge_from ne = a" "edge_to ne = b" by (simp_all add: ne_def)
  show ?thesis
    unfolding res noDuplicatePairs_def
  proof (intro allI impI, elim conjE)
    fix k1 k2 e1 e2
    assume ne12: "k1 \<noteq> k2"
      and l1: "map_of (AList.update newId ne es) k1 = Some e1"
      and l2: "map_of (AList.update newId ne es) k2 = Some e2"
    show "\<not> connects (edge_from e1) (edge_to e1) e2"
    proof (cases "k1 = newId")
      case True
      then have e1: "e1 = ne" using l1 by (simp add: update_conv')
      from True ne12 have "map_of es k2 = Some e2" using l2 by (simp add: update_conv')
      then show ?thesis using fresh e1 ne_ft by simp
    next
      case k1: False
      then have m1: "map_of es k1 = Some e1" using l1 by (simp add: update_conv')
      show ?thesis
      proof (cases "k2 = newId")
        case True
        then have "e2 = ne" using l2 by (simp add: update_conv')
        then show ?thesis using fresh [OF m1] ne_ft connects_sym [of e1 ne] by simp
      next
        case False
        then have "map_of es k2 = Some e2" using l2 by (simp add: update_conv')
        then show ?thesis using inv m1 ne12 unfolding noDuplicatePairs_def by blast
      qed
    qed
  qed
qed

lemma createEdges_preserves_noDuplicatePairs:
  "noDuplicatePairs es \<Longrightarrow> noDuplicatePairs (createEdges calls es)"
proof (induction calls arbitrary: es)
  case Nil
  then show ?case by simp
next
  case (Cons c calls)
  obtain newId a b where c: "c = (newId, a, b)" by (cases c)
  show ?case
    unfolding c createEdges.simps
    by (rule Cons.IH) (rule createEdge_preserves_noDuplicatePairs [OF Cons.prems])
qed

lemma noDuplicatePairs_empty: "noDuplicatePairs []"
  by (simp add: noDuplicatePairs_def)

text \<open>
  C3. For every edge map and node ids: \<open>createEdge(a, a)\<close> returns null and leaves the map
  unchanged; when an edge of the map already joins \<open>a\<close> and \<open>b\<close> in either direction,
  \<open>createEdge(a, b)\<close> returns null and leaves the map unchanged; and a graph built from the
  empty map through any sequence of \<open>createEdge\<close> calls never holds two edges that join
  the same unordered pair of node ids.
\<close>

theorem createEdge_validity:
  "createEdge newId a a es = (None, es)
   \<and> (\<forall>k e. map_of es k = Some e \<and> connects a b e \<longrightarrow> createEdge newId a b es = (None, es))
   \<and> noDuplicatePairs (createEdges calls [])"
  using createEdge_self createEdge_duplicate
    createEdges_preserves_noDuplicatePairs [OF noDuplicatePairs_empty]
  by blast

theorem createEdge_validity_witness:
  "createEdges [(''e1'', ''a'', ''b''), (''e2'', ''b'', ''a''), (''e3'', ''c'', ''c''), (''e4'', ''b'', ''c'')] []
     = [(''e1'', \<lparr> edge_id = ''e1'', edge_from = ''a'', edge_to = ''b'', edge_label = None \<rparr>),
        (''e4'', \<lparr> edge_id = ''e4'', edge_from = ''b'', edge_to = ''c'', edge_label = None \<rparr>)]
   \<and> noDuplicatePairs
        (createEdges [(''e1'', ''a'', ''b''), (''e2'', ''b'', ''a''), (''e3'', ''c'', ''c''), (''e4'', ''b'', ''c'')] [])
   \<and> map_of [(''e1'', \<lparr> edge_id = ''e1'', edge_from = ''a'', edge_to = ''b'', edge_label = None \<rparr>)] ''e1''
       = Some \<lparr> edge_id = ''e1'', edge_from = ''a'', edge_to = ''b'', edge_label = None \<rparr>
   \<and> connects ''b'' ''a'' \<lparr> edge_id = ''e1'', edge_from = ''a'', edge_to = ''b'', edge_label = None \<rparr>
   \<and> createEdge ''e2'' ''b'' ''a''
        [(''e1'', \<lparr> edge_id = ''e1'', edge_from = ''a'', edge_to = ''b'', edge_label = None \<rparr>)]
       = (None, [(''e1'', \<lparr> edge_id = ''e1'', edge_from = ''a'', edge_to = ''b'', edge_label = None \<rparr>)])"
proof -
  let ?calls = "[(''e1'', ''a'', ''b''), (''e2'', ''b'', ''a''), (''e3'', ''c'', ''c''), (''e4'', ''b'', ''c'')]"
  let ?E = "\<lparr> edge_id = ''e1'', edge_from = ''a'', edge_to = ''b'', edge_label = None \<rparr>"
  have run: "createEdges ?calls []
     = [(''e1'', ?E),
        (''e4'', \<lparr> edge_id = ''e4'', edge_from = ''b'', edge_to = ''c'', edge_label = None \<rparr>)]"
    by (simp add: createEdge_def connects_def Let_def)
  have look: "map_of [(''e1'', ?E)] ''e1'' = Some ?E" by simp
  have con: "connects ''b'' ''a'' ?E" by (simp add: connects_def)
  from createEdge_validity [of "''e2''" "''b''" "[(''e1'', ?E)]" "''a''" ?calls] look con
  have "createEdge ''e2'' ''b'' ''a'' [(''e1'', ?E)] = (None, [(''e1'', ?E)])"
    and "noDuplicatePairs (createEdges ?calls [])"
    by blast+
  with run look con show ?thesis by simp
qed

section \<open>History: pushes, undo and redo\<close>

lemma sliceFrom_neg: "0 < m \<Longrightarrow> sliceFrom (- m) xs = drop (length xs - nat m) xs"
proof -
  assume m: "0 < m"
  have "nat (int (length xs) - m) = length xs - nat m" using m by linarith
  then show ?thesis using m by (simp add: sliceFrom_def)
qed

lemma past_pushState:
  assumes "1 \<le> maxSize" "\<not> isUndoing h"
  shows "past (pushState maxSize ns es h) =
     drop (Suc (length (past h)) - nat maxSize) (past h @ [\<lparr> hs_nodes = ns, hs_edges = es \<rparr>])"
  using assms by (auto simp: pushState_def Let_def sliceFrom_neg)

lemma undo_nonempty:
  "undo ns es (h \<lparr> past := P @ [s] \<rparr>) =
     (True, h \<lparr> future := future h @ [\<lparr> hs_nodes = ns, hs_edges = es \<rparr>], past := P, isUndoing := False \<rparr>, s)"
  by (simp add: undo_def Let_def)

lemma undoTimes_suffix:
  assumes "past h = P @ S" "\<not> isUndoing h"
  shows "undoTimes (length S) (h, g) =
     (replicate (length S) True,
      h \<lparr> future := future h @ rev (tl (S @ [g])), past := P \<rparr>, hd (S @ [g]))"
  using assms
proof (induction S arbitrary: h g rule: rev_induct)
  case Nil
  then show ?case by simp
next
  case (snoc s S)
  let ?h' = "h \<lparr> future := future h @ [g], past := P @ S, isUndoing := False \<rparr>"
  have h: "h = h \<lparr> past := (P @ S) @ [s] \<rparr>" using snoc.prems by simp
  have step: "undo (hs_nodes g) (hs_edges g) h = (True, ?h', s)"
    by (subst h, subst undo_nonempty) simp
  have ih: "undoTimes (length S) (?h', s) =
     (replicate (length S) True, ?h' \<lparr> future := future ?h' @ rev (tl (S @ [s])), past := P \<rparr>, hd (S @ [s]))"
    by (rule snoc.IH) simp_all
  have tl: "tl ((S @ [s]) @ [g]) = tl (S @ [s]) @ [g]" by (cases S) simp_all
  have hd: "hd ((S @ [s]) @ [g]) = hd (S @ [s])" by (cases S) simp_all
  show ?case
    unfolding tl hd using snoc.prems(2)
    by (simp add: step ih)
qed

lemma redo_nonempty:
  "redo ns es (h \<lparr> future := F @ [s] \<rparr>) =
     (True, h \<lparr> past := past h @ [\<lparr> hs_nodes = ns, hs_edges = es \<rparr>], future := F, isUndoing := False \<rparr>, s)"
  by (simp add: redo_def Let_def)

lemma redoTimes_suffix:
  assumes "future h = F @ R" "\<not> isUndoing h"
  shows "redoTimes (length R) (h, g) =
     (replicate (length R) True,
      h \<lparr> past := past h @ rev (tl (R @ [g])), future := F \<rparr>, hd (R @ [g]))"
  using assms
proof (induction R arbitrary: h g rule: rev_induct)
  case Nil
  then show ?case by simp
next
  case (snoc s R)
  let ?h' = "h \<lparr> past := past h @ [g], future := F @ R, isUndoing := False \<rparr>"
  have h: "h = h \<lparr> future := (F @ R) @ [s] \<rparr>" using snoc.prems by simp
  have step: "redo (hs_nodes g) (hs_edges g) h = (True, ?h', s)"
    by (subst h, subst redo_nonempty) simp
  have ih: "redoTimes (length R) (?h', s) =
     (replicate (length R) True, ?h' \<lparr> past := past ?h' @ rev (tl (R @ [s])), future := F \<rparr>, hd (R @ [s]))"
    by (rule snoc.IH) simp_all
  have tl: "tl ((R @ [s]) @ [g]) = tl (R @ [s]) @ [g]" by (cases R) simp_all
  have hd: "hd ((R @ [s]) @ [g]) = hd (R @ [s])" by (cases R) simp_all
  show ?case
    unfolding tl hd using snoc.prems(2)
    by (simp add: step ih)
qed

lemma runActions_pushStates:
  "runActions maxSize acts (h, g) = (pushStates maxSize (preStates acts g) h, foldl (\<lambda>x act. act x) g acts)"
  by (induction acts arbitrary: h g) simp_all

lemma pushState_not_undoing: "\<not> isUndoing h \<Longrightarrow> \<not> isUndoing (pushState maxSize ns es h)"
  by (simp add: pushState_def Let_def)

lemma pushStates_not_undoing: "\<not> isUndoing h \<Longrightarrow> \<not> isUndoing (pushStates maxSize gs h)"
  by (induction gs arbitrary: h) (simp_all add: pushState_not_undoing)

lemma hs_eta: "\<lparr> hs_nodes = hs_nodes g, hs_edges = hs_edges g \<rparr> = (g::HistoryState)"
  by simp

lemma pushStates_snoc:
  "pushStates maxSize (gs @ [g]) h = pushState maxSize (hs_nodes g) (hs_edges g) (pushStates maxSize gs h)"
  by (induction gs arbitrary: h) simp_all

lemma pushStates_suffix:
  assumes "\<not> isUndoing h" "int (length gs) \<le> maxSize"
  shows "\<exists>P. past (pushStates maxSize gs h) = P @ gs"
  using assms(2)
proof (induction gs rule: rev_induct)
  case Nil
  then show ?case by simp
next
  case (snoc g gs)
  from snoc obtain P where P: "past (pushStates maxSize gs h) = P @ gs" by auto
  let ?h = "pushStates maxSize gs h"
  have m: "1 \<le> maxSize" using snoc.prems by simp
  have k: "Suc (length P + length gs) - nat maxSize \<le> length P" using snoc.prems by simp
  have "past (pushStates maxSize (gs @ [g]) h)
      = drop (Suc (length (past ?h)) - nat maxSize) (past ?h @ [g])"
    unfolding pushStates_snoc
    using past_pushState [OF m pushStates_not_undoing [OF assms(1), of maxSize gs], of "hs_nodes g" "hs_edges g"]
    by (simp add: hs_eta)
  also have "\<dots> = drop (Suc (length P + length gs) - nat maxSize) P @ gs @ [g]"
    unfolding P using k by simp
  finally show ?case by simp
qed

lemma length_preStates: "length (preStates acts g) = length acts"
  by (induction acts arbitrary: g) simp_all

lemma hd_preStates: "hd (preStates acts g @ [foldl (\<lambda>x act. act x) g acts]) = g"
  by (cases acts) simp_all


lemma undo_empty: "past h = [] \<Longrightarrow> undo ns es h = (False, h, \<lparr> hs_nodes = ns, hs_edges = es \<rparr>)"
  by (simp add: undo_def)

lemma redo_empty: "future h = [] \<Longrightarrow> redo ns es h = (False, h, \<lparr> hs_nodes = ns, hs_edges = es \<rparr>)"
  by (simp add: redo_def)

text \<open>
  C4 (as amended). For a run of N mutating actions, each preceded by one \<open>pushState\<close> of the
  graph it is about to change, with N at most the configured maximum: \<open>undo\<close> called N times
  returns true each time and restores the graph that held before the first action; \<open>redo\<close>
  called N times afterwards returns true each time and restores the graph (and the history)
  that held after the last action. \<open>undo\<close> on an empty past stack and \<open>redo\<close> on an empty
  future stack return false and change nothing.
\<close>

theorem undo_redo_inverse:
  assumes "int (length acts) \<le> maxSize" and "\<not> isUndoing h"
    and "s1 = runActions maxSize acts (h, g)"
    and "u = undoTimes (length acts) s1"
    and "r = redoTimes (length acts) (snd u)"
  shows "fst u = replicate (length acts) True
       \<and> snd (snd u) = g
       \<and> fst r = replicate (length acts) True
       \<and> snd r = s1
       \<and> (past h' = [] \<longrightarrow> undo ns es h' = (False, h', \<lparr> hs_nodes = ns, hs_edges = es \<rparr>))
       \<and> (future h' = [] \<longrightarrow> redo ns es h' = (False, h', \<lparr> hs_nodes = ns, hs_edges = es \<rparr>))"
proof -
  let ?S = "preStates acts g"
  let ?g1 = "foldl (\<lambda>x act. act x) g acts"
  let ?h1 = "pushStates maxSize ?S h"
  have s1: "s1 = (?h1, ?g1)" using assms(3) by (simp add: runActions_pushStates)
  have nu: "\<not> isUndoing ?h1" by (rule pushStates_not_undoing [OF assms(2)])
  obtain P where P: "past ?h1 = P @ ?S"
    using pushStates_suffix [OF assms(2), of ?S maxSize] assms(1) by (auto simp: length_preStates)
  let ?h2 = "?h1 \<lparr> future := future ?h1 @ rev (tl (?S @ [?g1])), past := P \<rparr>"
  have u: "u = (replicate (length acts) True, ?h2, g)"
    using undoTimes_suffix [OF P nu, of ?g1] assms(4) s1
    by (simp add: length_preStates hd_preStates)
  have fut: "future ?h2 = future ?h1 @ rev (tl (?S @ [?g1]))" by simp
  have nu2: "\<not> isUndoing ?h2" using nu by simp
  have len: "length (rev (tl (?S @ [?g1]))) = length acts" by (simp add: length_preStates)
  have rg: "rev (tl (?S @ [?g1])) @ [g] = rev (?S @ [?g1])"
    using hd_preStates [of acts g] by (metis append_is_Nil_conv hd_Cons_tl not_Cons_self2 rev.simps(2))
  have r: "r = (replicate (length acts) True,
      ?h2 \<lparr> past := past ?h2 @ rev (tl (rev (tl (?S @ [?g1])) @ [g])), future := future ?h1 \<rparr>,
      hd (rev (tl (?S @ [?g1])) @ [g]))"
    using redoTimes_suffix [OF fut nu2, of g] assms(5) u len by simp
  have "?h2 \<lparr> past := past ?h2 @ rev (tl (rev (tl (?S @ [?g1])) @ [g])), future := future ?h1 \<rparr> = ?h1"
    unfolding rg using P by simp
  moreover have "hd (rev (tl (?S @ [?g1])) @ [g]) = ?g1" unfolding rg by simp
  ultimately have "fst u = replicate (length acts) True \<and> snd (snd u) = g
       \<and> fst r = replicate (length acts) True \<and> snd r = s1"
    using u r s1 by simp
  then show ?thesis using undo_empty redo_empty by blast
qed

theorem undo_redo_inverse_witness:
  "int (length [toggleAction, toggleAction]) \<le> DEFAULT_MAX_SIZE
   \<and> \<not> isUndoing emptyHistory
   \<and> fst (undoTimes 2 (runActions DEFAULT_MAX_SIZE [toggleAction, toggleAction] (emptyHistory, oneNode)))
       = [True, True]
   \<and> snd (snd (undoTimes 2 (runActions DEFAULT_MAX_SIZE [toggleAction, toggleAction] (emptyHistory, oneNode))))
       = oneNode
   \<and> fst (redoTimes 2 (snd (undoTimes 2
        (runActions DEFAULT_MAX_SIZE [toggleAction, toggleAction] (emptyHistory, oneNode)))))
       = [True, True]
   \<and> snd (redoTimes 2 (snd (undoTimes 2
        (runActions DEFAULT_MAX_SIZE [toggleAction, toggleAction] (emptyHistory, oneNode)))))
       = runActions DEFAULT_MAX_SIZE [toggleAction, toggleAction] (emptyHistory, oneNode)
   \<and> past emptyHistory = []
   \<and> undo [] [] emptyHistory = (False, emptyHistory, \<lparr> hs_nodes = [], hs_edges = [] \<rparr>)
   \<and> future emptyHistory = []
   \<and> redo [] [] emptyHistory = (False, emptyHistory, \<lparr> hs_nodes = [], hs_edges = [] \<rparr>)"
proof -
  have a: "int (length [toggleAction, toggleAction]) \<le> DEFAULT_MAX_SIZE"
    by (simp add: DEFAULT_MAX_SIZE_def)
  have b: "\<not> isUndoing emptyHistory" "past emptyHistory = []" "future emptyHistory = []"
    by (simp_all add: emptyHistory_def)
  have l: "length [toggleAction, toggleAction] = 2" by simp
  have r: "replicate 2 True = [True, True]" by (simp add: numeral_2_eq_2)
  note t = undo_redo_inverse [OF a b(1) refl refl refl, of oneNode emptyHistory "[]" "[]", unfolded l r]
  show ?thesis using t a b by blast
qed

text \<open>
  The law does not reach past the bound: after 51 actions under the default maximum of 50
  the 51st \<open>undo\<close> returns false and the graph before the first action is not restored.
\<close>

theorem undo_redo_inverse_counterexample:
  "last (fst (undoTimes 51 (runActions DEFAULT_MAX_SIZE (replicate 51 toggleAction) (emptyHistory, oneNode))))
     = False
   \<and> snd (snd (undoTimes 51 (runActions DEFAULT_MAX_SIZE (replicate 51 toggleAction) (emptyHistory, oneNode))))
     \<noteq> oneNode"
  by code_simp

lemma length_past_pushState:
  assumes "1 \<le> maxSize" "\<not> isUndoing h"
  shows "int (length (past (pushState maxSize ns es h))) \<le> maxSize"
  using assms by (simp add: past_pushState)

lemma future_pushState: "\<not> isUndoing h \<Longrightarrow> future (pushState maxSize ns es h) = []"
  by (simp add: pushState_def Let_def)

text \<open>
  C6. With a configured maximum of at least one entry (the default is 50), the past stack
  holds at most the maximum after every \<open>pushState\<close>, and so after every non-empty sequence
  of them; the stack is the newest entries of the old stack followed by the new snapshot, so
  a push onto a full stack evicts exactly the oldest entry; and every \<open>pushState\<close> empties the
  future stack.
\<close>

theorem pushState_bound:
  assumes "1 \<le> maxSize" and "\<not> isUndoing h"
  shows "past (pushState maxSize ns es h)
           = drop (Suc (length (past h)) - nat maxSize) (past h @ [\<lparr> hs_nodes = ns, hs_edges = es \<rparr>])
       \<and> int (length (past (pushState maxSize ns es h))) \<le> maxSize
       \<and> future (pushState maxSize ns es h) = []
       \<and> (int (length (past h)) = maxSize \<longrightarrow>
            past (pushState maxSize ns es h) = tl (past h) @ [\<lparr> hs_nodes = ns, hs_edges = es \<rparr>])
       \<and> (gs \<noteq> [] \<longrightarrow> int (length (past (pushStates maxSize gs h))) \<le> maxSize
                     \<and> future (pushStates maxSize gs h) = [])"
proof (intro conjI impI)
  show p: "past (pushState maxSize ns es h)
           = drop (Suc (length (past h)) - nat maxSize) (past h @ [\<lparr> hs_nodes = ns, hs_edges = es \<rparr>])"
    by (rule past_pushState [OF assms])
  show "int (length (past (pushState maxSize ns es h))) \<le> maxSize"
    by (rule length_past_pushState [OF assms])
  show "future (pushState maxSize ns es h) = []" by (rule future_pushState [OF assms(2)])
  {
    assume full: "int (length (past h)) = maxSize"
    then have "Suc (length (past h)) - nat maxSize = 1" by simp
    moreover have "past h \<noteq> []" using full assms(1) by auto
    ultimately show "past (pushState maxSize ns es h) = tl (past h) @ [\<lparr> hs_nodes = ns, hs_edges = es \<rparr>]"
      unfolding p by (cases "past h") simp_all
  }
  {
    assume "gs \<noteq> []"
    then obtain gs' g where gs: "gs = gs' @ [g]" by (metis rev_exhaust)
    have nu: "\<not> isUndoing (pushStates maxSize gs' h)" by (rule pushStates_not_undoing [OF assms(2)])
    show "int (length (past (pushStates maxSize gs h))) \<le> maxSize"
      unfolding gs pushStates_snoc by (rule length_past_pushState [OF assms(1) nu])
    show "future (pushStates maxSize gs h) = []"
      unfolding gs pushStates_snoc by (rule future_pushState [OF nu])
  }
qed

theorem pushState_bound_witness:
  "1 \<le> DEFAULT_MAX_SIZE \<and> \<not> isUndoing emptyHistory \<and> [oneNode] \<noteq> []
   \<and> int (length (past (pushStates DEFAULT_MAX_SIZE [oneNode] emptyHistory))) \<le> DEFAULT_MAX_SIZE
   \<and> future (pushStates DEFAULT_MAX_SIZE [oneNode] emptyHistory) = []
   \<and> int (length (past \<lparr> past = [oneNode, toggleAction oneNode], future = [oneNode], isUndoing = False \<rparr>)) = 2
   \<and> past (pushState 2 [] []
         \<lparr> past = [oneNode, toggleAction oneNode], future = [oneNode], isUndoing = False \<rparr>)
       = [toggleAction oneNode, \<lparr> hs_nodes = [], hs_edges = [] \<rparr>]
   \<and> future (pushState 2 [] []
         \<lparr> past = [oneNode, toggleAction oneNode], future = [oneNode], isUndoing = False \<rparr>) = []"
proof -
  let ?h = "\<lparr> past = [oneNode, toggleAction oneNode], future = [oneNode], isUndoing = False \<rparr>"
  have a: "1 \<le> DEFAULT_MAX_SIZE" by (simp add: DEFAULT_MAX_SIZE_def)
  have b: "\<not> isUndoing emptyHistory" by (simp add: emptyHistory_def)
  have c: "(1::int) \<le> 2" "\<not> isUndoing ?h" "int (length (past ?h)) = 2" "[oneNode] \<noteq> []"
    by simp_all
  have t: "tl (past ?h) = [toggleAction oneNode]" by simp
  note t1 = pushState_bound [OF a b, of "[]" "[]" "[oneNode]"]
  note t2 = pushState_bound [OF c(1) c(2), of "[]" "[]" "[]", unfolded t]
  show ?thesis using t1 t2 a b c by simp
qed


section \<open>Camera: zoom clamp and pointer-anchored zoom\<close>

lemma handleWheel_scale_in_range:
  assumes "0 \<le> minScale opts" "1 \<le> scaleStep opts"
    and "minScale opts \<le> cam_scale camera" "cam_scale camera \<le> maxScale opts"
  shows "minScale opts \<le> cam_scale (handleWheel opts pointer deltaY camera)
       \<and> cam_scale (handleWheel opts pointer deltaY camera) \<le> maxScale opts"
proof (cases pointer)
  case None
  then show ?thesis using assms by (simp add: handleWheel_def)
next
  case (Some p)
  obtain px py where p: "p = (px, py)" by (cases p)
  have s0: "0 \<le> cam_scale camera" using assms by linarith
  have up: "cam_scale camera \<le> cam_scale camera * scaleStep opts"
    using s0 assms(2) by (simp add: mult_le_cancel_left1)
  have down: "cam_scale camera / scaleStep opts \<le> cam_scale camera"
    using s0 assms(2) by (simp add: divide_le_eq mult_le_cancel_left1)
  show ?thesis
    using assms up down unfolding Some p by (simp add: handleWheel_def Let_def)
qed

text \<open>
  C8. With options in which the minimum scale is not negative and the step is at least 1
  (the defaults are 0.1, 3 and 1.1), starting from a camera whose scale lies within
  \<open>[minScale, maxScale]\<close>, every camera that a sequence of wheel events produces, zooming
  in or out, has its scale within \<open>[minScale, maxScale]\<close>.
\<close>

theorem zoom_clamp:
  assumes "0 \<le> minScale opts" "1 \<le> scaleStep opts"
    and "minScale opts \<le> cam_scale camera" "cam_scale camera \<le> maxScale opts"
  shows "\<forall>c \<in> set (wheelSteps opts evs camera). minScale opts \<le> cam_scale c \<and> cam_scale c \<le> maxScale opts"
  using assms(3,4)
proof (induction evs arbitrary: camera)
  case Nil
  then show ?case by simp
next
  case (Cons ev evs)
  obtain pointer deltaY where ev: "ev = (pointer, deltaY)" by (cases ev)
  have step: "minScale opts \<le> cam_scale (handleWheel opts pointer deltaY camera)
       \<and> cam_scale (handleWheel opts pointer deltaY camera) \<le> maxScale opts"
    by (rule handleWheel_scale_in_range [OF assms(1,2) Cons.prems])
  then show ?case
    unfolding ev using Cons.IH [of "handleWheel opts pointer deltaY camera"] by simp
qed

text \<open>
  C9. For a camera of positive scale (and a positive step and maximum, as the defaults are),
  a pointer position and one wheel step: the canvas point under the pointer is the same
  under the new camera as under the old one, and the new offset is
  \<open>pointer - (pointer - oldOffset) / oldScale * newScale\<close>. Numbers are reals, so the
  equality is exact.
\<close>

theorem pointer_anchored_zoom:
  assumes "0 < cam_scale camera" "0 < scaleStep opts" "0 < maxScale opts"
    and "camera' = handleWheel opts (Some (pointerX, pointerY)) deltaY camera"
  shows "screenToCanvas camera' pointerX pointerY = screenToCanvas camera pointerX pointerY
       \<and> cam_x camera' = pointerX - (pointerX - cam_x camera) / cam_scale camera * cam_scale camera'
       \<and> cam_y camera' = pointerY - (pointerY - cam_y camera) / cam_scale camera * cam_scale camera'"
proof -
  have "0 < cam_scale camera * scaleStep opts" "0 < cam_scale camera / scaleStep opts"
    using assms(1,2) by simp_all
  then have pos: "0 < cam_scale camera'"
    unfolding assms(4) using assms(3) by (simp add: handleWheel_def Let_def less_max_iff_disj)
  have x: "cam_x camera' = pointerX - (pointerX - cam_x camera) / cam_scale camera * cam_scale camera'"
    and y: "cam_y camera' = pointerY - (pointerY - cam_y camera) / cam_scale camera * cam_scale camera'"
    unfolding assms(4) by (simp_all add: handleWheel_def Let_def)
  have "screenToCanvas camera' pointerX pointerY = screenToCanvas camera pointerX pointerY"
    unfolding screenToCanvas_def x y using pos by simp
  then show ?thesis using x y by simp
qed

theorem zoom_clamp_witness:
  "0 \<le> minScale DEFAULT_OPTIONS \<and> 1 \<le> scaleStep DEFAULT_OPTIONS
   \<and> minScale DEFAULT_OPTIONS \<le> cam_scale \<lparr> cam_x = 0, cam_y = 0, cam_scale = 3 \<rparr>
   \<and> cam_scale \<lparr> cam_x = 0, cam_y = 0, cam_scale = 3 \<rparr> \<le> maxScale DEFAULT_OPTIONS
   \<and> map cam_scale (wheelSteps DEFAULT_OPTIONS [(Some (10, 20), - 1), (None, 1), (Some (10, 20), 1)]
         \<lparr> cam_x = 0, cam_y = 0, cam_scale = 3 \<rparr>) = [3, 3, 30 / 11]
   \<and> list_all (\<lambda>c. minScale DEFAULT_OPTIONS \<le> cam_scale c \<and> cam_scale c \<le> maxScale DEFAULT_OPTIONS)
         (wheelSteps DEFAULT_OPTIONS [(Some (10, 20), - 1), (None, 1), (Some (10, 20), 1)]
            \<lparr> cam_x = 0, cam_y = 0, cam_scale = 3 \<rparr>)"
proof -
  let ?cam = "\<lparr> cam_x = 0, cam_y = 0, cam_scale = 3 \<rparr>"
  let ?evs = "[(Some (10, 20), - 1), (None, 1), (Some (10, 20), 1)] :: ((real \<times> real) option \<times> real) list"
  have h: "0 \<le> minScale DEFAULT_OPTIONS" "1 \<le> scaleStep DEFAULT_OPTIONS"
    "minScale DEFAULT_OPTIONS \<le> cam_scale ?cam" "cam_scale ?cam \<le> maxScale DEFAULT_OPTIONS"
    by (simp_all add: DEFAULT_OPTIONS_def)
  have run: "map cam_scale (wheelSteps DEFAULT_OPTIONS ?evs ?cam) = [3, 3, 30 / 11]"
    by (simp add: handleWheel_def DEFAULT_OPTIONS_def Let_def)
  from zoom_clamp [OF h, of ?evs]
  have "list_all (\<lambda>c. minScale DEFAULT_OPTIONS \<le> cam_scale c \<and> cam_scale c \<le> maxScale DEFAULT_OPTIONS)
         (wheelSteps DEFAULT_OPTIONS ?evs ?cam)"
    unfolding list_all_iff .
  with h run show ?thesis by blast
qed

theorem pointer_anchored_zoom_witness:
  "0 < cam_scale \<lparr> cam_x = 5, cam_y = 7, cam_scale = 2 \<rparr>
   \<and> 0 < scaleStep DEFAULT_OPTIONS \<and> 0 < maxScale DEFAULT_OPTIONS
   \<and> handleWheel DEFAULT_OPTIONS (Some (10, 20)) (- 1) \<lparr> cam_x = 5, cam_y = 7, cam_scale = 2 \<rparr>
       = \<lparr> cam_x = 9 / 2, cam_y = 57 / 10, cam_scale = 11 / 5 \<rparr>
   \<and> screenToCanvas \<lparr> cam_x = 5, cam_y = 7, cam_scale = 2 \<rparr> 10 20 = (5 / 2, 13 / 2)
   \<and> screenToCanvas (handleWheel DEFAULT_OPTIONS (Some (10, 20)) (- 1)
         \<lparr> cam_x = 5, cam_y = 7, cam_scale = 2 \<rparr>) 10 20
       = screenToCanvas \<lparr> cam_x = 5, cam_y = 7, cam_scale = 2 \<rparr> 10 20"
proof -
  let ?cam = "\<lparr> cam_x = 5, cam_y = 7, cam_scale = 2 \<rparr>"
  have h: "0 < cam_scale ?cam" "0 < scaleStep DEFAULT_OPTIONS" "0 < maxScale DEFAULT_OPTIONS"
    by (simp_all add: DEFAULT_OPTIONS_def)
  have run: "handleWheel DEFAULT_OPTIONS (Some (10, 20)) (- 1) ?cam
       = \<lparr> cam_x = 9 / 2, cam_y = 57 / 10, cam_scale = 11 / 5 \<rparr>"
    by (simp add: handleWheel_def DEFAULT_OPTIONS_def Let_def)
  have old: "screenToCanvas ?cam 10 20 = (5 / 2, 13 / 2)" by (simp add: screenToCanvas_def)
  from pointer_anchored_zoom [OF h refl, of 10 20 "- 1"]
  have "screenToCanvas (handleWheel DEFAULT_OPTIONS (Some (10, 20)) (- 1) ?cam) 10 20
       = screenToCanvas ?cam 10 20" by blast
  with h run old show ?thesis by blast
qed


section \<open>Multi-node drag\<close>

lemma map_of_foldl_delete:
  "map_of (foldl (\<lambda>acc i. AList.delete i acc) al sel) k = (if k \<in> set sel then None else map_of al k)"
  by (induction sel arbitrary: al) (auto simp: delete_conv')

lemma foldl_unchanged: "(\<And>acc i. i \<in> set xs \<Longrightarrow> f acc i = acc) \<Longrightarrow> foldl f a xs = a"
  by (induction xs arbitrary: a) simp_all

lemma handleNodeDragEnd_eq:
  "handleNodeDragEnd nodeId px py c =
     (case map_of (c_nodes c) nodeId of
        None \<Rightarrow> Inr c
      | Some node \<Rightarrow>
          if map_of (dragStartPositions c) nodeId = None then Inr c
          else Inr (markDirty
                 ((saveStateForUndo c)
                    \<lparr> draggingNodes := foldl (\<lambda>acc i. AList.delete i acc) (draggingNodes c)
                                          (selectedNodeIds c),
                      dragStartPositions := foldl (\<lambda>acc i. AList.delete i acc)
                                               (dragStartPositions c) (selectedNodeIds c),
                      c_nodes := AList.update nodeId
                        (spreadNode node (noUpdates \<lparr> upd_x := Some px, upd_y := Some py \<rparr>))
                        (c_nodes c) \<rparr>)))"
proof -
  let ?starts = "foldl (\<lambda>acc i. AList.delete i acc) (dragStartPositions c) (selectedNodeIds c)"
  have loop: "foldl (\<lambda>acc i. if i \<noteq> nodeId then
              (case map_of ?starts i of None \<Rightarrow> acc
               | Some otherStartPos \<Rightarrow>
                   (case acc of Inl e \<Rightarrow> Inl e
                    | Inr prev \<Rightarrow> moveNode i (fst otherStartPos + ox) (snd otherStartPos + oy) prev))
            else acc) m (selectedNodeIds c) = m" for ox oy m
    by (rule foldl_unchanged) (simp add: map_of_foldl_delete)
  show ?thesis
    by (auto simp: handleNodeDragEnd_def Let_def loop moveNode_def updateNode_own
        split: option.splits)
qed

lemma handleNodeDragEnd_well_formed: "\<exists>c'. handleNodeDragEnd nodeId px py c = Inr c'"
  by (simp add: handleNodeDragEnd_eq split: option.splits)

lemma handleNodeDragEnd_moves_only_dragged:
  assumes "handleNodeDragEnd nodeId px py c = Inr c'" "i \<noteq> nodeId"
  shows "map_of (c_nodes c') i = map_of (c_nodes c) i"
  using assms
  by (auto simp: handleNodeDragEnd_eq markDirty_def saveStateForUndo_def update_conv'
      split: option.splits if_splits)

text \<open>
  C1, evaluated on the code. node-1 and node-2 are selected and node-1 is dragged from
  (100, 100) to (150, 80), a delta of (50, -20). During the drag the visual position of
  node-2 follows, to (450, 100). At the end of the drag the start positions of all selected
  nodes are deleted before the loop that would move the other selected nodes reads them,
  so only the dragged node is committed: node-2 is stored at (400, 120), where it started.
\<close>

theorem multi_drag_commits_only_dragged_node:
  "selectedNodeIds twoSelected = [''node-1'', ''node-2'']
   \<and> draggingNodes (handleNodeDragMove ''node-1'' 150 80 twoSelected)
       = [(''node-1'', 150, 80), (''node-2'', 450, 100)]
   \<and> map_sum id (\<lambda>c. map (\<lambda>(k, n). (k, node_x n, node_y n)) (c_nodes c))
        (handleNodeDragEnd ''node-1'' 150 80 (handleNodeDragMove ''node-1'' 150 80 twoSelected))
       = Inr [(''node-1'', 150, 80), (''node-2'', 400, 120), (''node-3'', 150, 320)]"
  by (simp add: twoSelected_def sampleCanvas_def initialCanvas_def handleNodeClick_def
      handleNodeDragMove_def handleNodeDragEnd_def initialNodes_def Let_def moveNode_def
      updateNode_def jsLookup_def spreadNode_def noUpdates_def markDirty_def saveStateForUndo_def)


section \<open>Node deletion and dangling edges\<close>

lemma set_update_subset: "set (AList.update k v al) \<subseteq> insert (k, v) (set al)"
  by (induction al) auto

lemma deleteEdgesLoop_prunes:
  assumes "\<forall>(k, e) \<in> set acc. edge_from e \<noteq> n \<and> edge_to e \<noteq> n"
  shows "\<forall>(k, e) \<in> set (deleteEdgesLoop n es acc). edge_from e \<noteq> n \<and> edge_to e \<noteq> n"
  using assms
proof (induction es arbitrary: acc)
  case Nil
  then show ?case by simp
next
  case (Cons p es)
  obtain i e where p: "p = (i, e)" by (cases p)
  show ?case
  proof (cases "edge_from e \<noteq> n \<and> edge_to e \<noteq> n")
    case True
    have "\<forall>(k, e') \<in> set (AList.update i e acc). edge_from e' \<noteq> n \<and> edge_to e' \<noteq> n"
      using Cons.prems True set_update_subset [of i e acc] by auto
    then show ?thesis using True Cons.IH unfolding p by simp
  next
    case False
    then show ?thesis using Cons.IH [OF Cons.prems] unfolding p by auto
  qed
qed

lemma deleteEdgesForNode_prunes:
  "map_of (deleteEdgesForNode n es) k = Some e \<Longrightarrow> edge_from e \<noteq> n \<and> edge_to e \<noteq> n"
  using deleteEdgesLoop_prunes [of "[]" n es] map_of_SomeD [of "deleteEdgesForNode n es" k e]
  by (auto simp: deleteEdgesForNode_def)

lemma c_edges_handleKeyDown_nodes:
  "orNull (selectedEdgeId c) = None \<Longrightarrow> c_edges (handleKeyDown key c) = c_edges c"
  by (simp add: handleKeyDown_def markDirty_def saveStateForUndo_def)

text \<open>
  C2, evaluated on the code. node-1 is selected and Delete is pressed: node-1 leaves the
  node map, and the edge from node-2 to node-1 is still in the edge map. The handler calls
  \<open>deleteNode\<close> only; \<open>deleteEdgesForNode\<close>, which prunes exactly these edges
  (\<open>deleteEdgesForNode_prunes\<close>), is never called.
\<close>

theorem delete_node_leaves_dangling_edge:
  "selectedNodeIds (handleNodeClick ''node-1'' False sampleCanvas) = [''node-1'']
   \<and> map fst (c_nodes (handleKeyDown ''Delete'' (handleNodeClick ''node-1'' False sampleCanvas)))
       = [''node-2'', ''node-3'']
   \<and> c_edges (handleKeyDown ''Delete'' (handleNodeClick ''node-1'' False sampleCanvas))
       = [(''edge-1'', \<lparr> edge_id = ''edge-1'', edge_from = ''node-2'', edge_to = ''node-1'',
                          edge_label = None \<rparr>)]"
  by (simp add: sampleCanvas_def initialCanvas_def handleNodeClick_def handleKeyDown_def
      initialNodes_def edge21_def deleteNode_def orNull_def markDirty_def saveStateForUndo_def)


section \<open>Nearest handle and the snap threshold\<close>





























section \<open>History entry of a rejected connection\<close>










end
